theory Spec2Isabelle
  imports Complex_Main "HOL-Library.Multiset"
begin

section \<open>Values and errors\<close>

text \<open>
  A slot of a communication buffer is a double.  The buffers are filled with \<open>np.nan\<close>
  before the first write and bounds start at \<open>math.inf\<close>, so the model keeps the three
  special values apart from the finite ones, which are real numbers.
\<close>

datatype double = NaN | NegInf | Fin real | PosInf

text \<open>The exceptions the modelled code can raise; \<open>quit()\<close> raises \<open>SystemExit\<close>.\<close>

datatype error =
    RuntimeError string
  | KeyError string
  | TypeError
  | ValueError
  | IndexError
  | ZeroDivisionError
  | AssertionError
  | MPIError
  | SystemExit

section \<open>spcommunicator.py: buffers and windows\<close>

text \<open>
  \<open>communicator_array(size)\<close>: \<open>np.empty(size+1)\<close> rejects a negative shape, the slice
  assignment fills every slot with NaN, and \<open>arr[-1] = 0\<close> raises on an array of no slots.
\<close>

definition communicator_array :: "int \<Rightarrow> error + double list" where
  "communicator_array sz =
     (if sz + 1 < 0 then Inl ValueError
      else let arr = replicate (nat (sz + 1)) NaN
           in if arr = [] then Inl IndexError
              else Inr (arr[length arr - 1 := Fin 0]))"

text \<open>
  An MPI window as \<open>_make_window\<close> requests it: its size in bytes, the displacement unit,
  and the communicator it is created over.
\<close>

record 'c mpi_win =
  win_size :: int
  disp_unit :: int
  win_comm :: 'c

text \<open>
  \<open>SPCommunicator._make_window(length, comm=None)\<close>.  \<open>strata_comm\<close> is the attribute
  \<open>self.strata_comm\<close>, the default communicator; \<open>dsize\<close> is \<open>MPI.DOUBLE.size\<close>, the width
  of one slot in bytes, a constant of the MPI library.  \<open>MPI.Win.Allocate\<close> refuses a negative
  size; the buffer has \<open>length + 1\<close> slots, all set to NaN, then the last set to zero.
\<close>

definition make_window ::
    "'c \<Rightarrow> int \<Rightarrow> int \<Rightarrow> 'c option \<Rightarrow> error + ('c mpi_win \<times> double list)" where
  "make_window strata_comm dsize len comm =
     (let comm' = (case comm of None \<Rightarrow> strata_comm | Some c \<Rightarrow> c);
          bytes = dsize * (len + 1)
      in if len + 1 < 0 then Inl MPIError
         else let window = \<lparr>win_size = bytes, disp_unit = dsize, win_comm = comm'\<rparr>;
                  buff = replicate (nat (len + 1)) NaN
              in if buff = [] then Inl IndexError
                 else Inr (window, buff[length buff - 1 := Fin 0]))"

section \<open>The shared window and the bound ratchet of the specification\<close>

text \<open>
  \<open>mpisppy/cylinders/spoke.py\<close> and \<open>hub.py\<close>, which implement the write and the read of a
  window, the new-data test and \<open>update_if_improving\<close>, are not among the sources.  The
  definitions of this section follow sections 3, 4.1 and 4.3 of the specification.
\<close>

text \<open>
  Modelled from the spec: the Window of section 3 (the owner's buffer in spoke.py/hub.py is
  missing); the payload slots and, apart from them, the final slot, the write counter.
\<close>

record window =
  payload :: "double list"
  write_counter :: nat

text \<open>
  Modelled from the spec: \<open>allocate(length, group)\<close> of section 4.1 as the reader sees it
  (the callers of \<open>_make_window\<close> are missing): payload undefined, counter zero.
\<close>

definition allocate :: "nat \<Rightarrow> window" where
  "allocate n = \<lparr>payload = replicate n NaN, write_counter = 0\<rparr>"

text \<open>
  Modelled from the spec: \<open>publish(payload)\<close> of section 4.1 (the owner's write in
  spoke.py/hub.py is missing): the owner writes the payload, then increments its counter.
\<close>

definition publish :: "double list \<Rightarrow> window \<Rightarrow> window" where
  "publish p w = w\<lparr>payload := p, write_counter := Suc (write_counter w)\<rparr>"








text \<open>The comparison \<open><\<close> of doubles: false whenever an operand is NaN.\<close>

fun dlt :: "double \<Rightarrow> double \<Rightarrow> bool" where
  "dlt NaN y = False"
| "dlt x NaN = False"
| "dlt NegInf NegInf = False"
| "dlt NegInf y = True"
| "dlt (Fin a) (Fin b) = (a < b)"
| "dlt (Fin a) PosInf = True"
| "dlt (Fin a) NegInf = False"
| "dlt PosInf y = False"

definition dle :: "double \<Rightarrow> double \<Rightarrow> bool" where
  "dle x y = (dlt x y \<or> x = y)"

datatype sense = Minimize | Maximize

text \<open>
  Modelled from the spec: the state behind \<open>update_if_improving\<close> (the bound spoke classes of
  spoke.py are missing): the tracked best value and the window the spoke publishes it in.
\<close>

record bound_state =
  best :: double
  bound_window :: window

text \<open>
  Modelled from the spec: the start of a run (section 8: a minimising spoke starts from
  \<open>+infinity\<close>; the maximising start is its mirror image), with a window of one payload slot.
\<close>

definition initial_bound_state :: "sense \<Rightarrow> bound_state" where
  "initial_bound_state s =
     \<lparr>best = (case s of Minimize \<Rightarrow> PosInf | Maximize \<Rightarrow> NegInf), bound_window = allocate 1\<rparr>"

text \<open>Strict improvement of \<open>v\<close> over the tracked best \<open>b\<close> in the configured direction.\<close>

definition improving :: "sense \<Rightarrow> double \<Rightarrow> double \<Rightarrow> bool" where
  "improving s v b = (case s of Minimize \<Rightarrow> dlt v b | Maximize \<Rightarrow> dlt b v)"

text \<open>
  Modelled from the spec: \<open>update_if_improving(value)\<close> of section 4.3 (its body in spoke.py
  is missing): it compares the value with the current best in the spoke's direction and
  publishes (write and counter increment) only on strict improvement; otherwise it is a no-op.
  The result says whether it published.
\<close>

definition update_if_improving :: "sense \<Rightarrow> double \<Rightarrow> bound_state \<Rightarrow> bool \<times> bound_state" where
  "update_if_improving s v st =
     (if improving s v (best st)
      then (True, st\<lparr>best := v, bound_window := publish [v] (bound_window st)\<rparr>)
      else (False, st))"

text \<open>The states after each call of a sequence of calls from one spoke.\<close>

fun bound_history :: "sense \<Rightarrow> double list \<Rightarrow> bound_state \<Rightarrow> bound_state list" where
  "bound_history s [] st = []"
| "bound_history s (v # vs) st =
     (let st' = snd (update_if_improving s v st) in st' # bound_history s vs st')"

section \<open>Options, variables and scenarios\<close>

text \<open>
  The values of an options dictionary.  A dictionary is an association list read with
  \<open>map_of\<close>: \<open>k in d\<close> is \<open>map_of d k \<noteq> None\<close>, \<open>d[k]\<close> raises \<open>KeyError\<close> on \<open>None\<close>, and
  \<open>d.get(k, default)\<close> returns the default on \<open>None\<close>.
\<close>

datatype pyval =
    PyNone
  | PyBool bool
  | PyInt int
  | PyFloat real
  | PyStr string
  | PyDict "(string \<times> pyval) list"

type_synonym pydict = "(string \<times> pyval) list"



text \<open>\<open>d.get(k, default)\<close>.\<close>

definition dict_get :: "pydict \<Rightarrow> string \<Rightarrow> pyval \<Rightarrow> pyval" where
  "dict_get d k dflt = (case map_of d k of None \<Rightarrow> dflt | Some v \<Rightarrow> v)"

text \<open>\<open>v[k]\<close> for a string key: only a dictionary can be indexed by it.\<close>

fun py_getitem :: "pyval \<Rightarrow> string \<Rightarrow> error + pyval" where
  "py_getitem (PyDict d) k = (case map_of d k of None \<Rightarrow> Inl (KeyError k) | Some v \<Rightarrow> Inr v)"
| "py_getitem v k = Inl TypeError"

text \<open>\<open>v != 0\<close>: numbers and booleans compare by value, anything else differs from 0.\<close>

fun py_ne_zero :: "pyval \<Rightarrow> bool" where
  "py_ne_zero (PyBool b) = b"
| "py_ne_zero (PyInt i) = (i \<noteq> 0)"
| "py_ne_zero (PyFloat r) = (r \<noteq> 0)"
| "py_ne_zero v = True"

text \<open>The number a value stands for as the right operand of \<open>+\<close> with a double on the left;
  adding anything else raises \<open>TypeError\<close>.\<close>

fun number_of :: "pyval \<Rightarrow> real option" where
  "number_of (PyBool b) = Some (if b then 1 else 0)"
| "number_of (PyInt i) = Some (of_int i)"
| "number_of (PyFloat r) = Some r"
| "number_of v = None"

text \<open>\<open>round(x)\<close> with one argument: the nearest integer, a tie going to the even one.\<close>

definition py_round :: "real \<Rightarrow> int" where
  "py_round x =
     (let f = \<lfloor>x\<rfloor>; d = x - of_int f
      in if d < 1 / 2 then f
         else if 1 / 2 < d then f + 1
         else if even f then f else f + 1)"

text \<open>\<open>round(val + rounding_bias)\<close>.\<close>

definition round_with_bias :: "real \<Rightarrow> pyval \<Rightarrow> error + real" where
  "round_with_bias val rounding_bias =
     (case number_of rounding_bias of
        None \<Rightarrow> Inl TypeError
      | Some b \<Rightarrow> Inr (of_int (py_round (val + b))))"

text \<open>
  A decision variable of a scenario model: its name (the identity the surrogate set tests),
  the answers of \<open>is_binary()\<close> and \<open>is_integer()\<close>, and what \<open>fix\<close> writes.
\<close>

record var =
  var_name :: string
  is_binary :: bool
  is_integer :: bool
  fixed :: bool
  var_value :: real

text \<open>\<open>var.fix(val)\<close>.\<close>

definition var_fix :: "real \<Rightarrow> var \<Rightarrow> var" where
  "var_fix val v = v\<lparr>fixed := True, var_value := val\<rparr>"

text \<open>
  A local scenario: the values of \<open>_mpisppy_data.nonant_indices\<close> in their order, the members
  of \<open>_mpisppy_data.all_surrogate_nonants\<close>, its probability, whether its solver plugin is
  persistent, and the variables handed to \<open>solver.update_var\<close> so far.
\<close>

record scenario =
  nonant_indices :: "var list"
  all_surrogate_nonants :: "string list"
  probability :: real
  is_persistent :: bool
  solver_updates :: "var list"

section \<open>slam_heuristic.py: the aggregation heuristic\<close>

datatype slam_kind = SlamMax | SlamMin

text \<open>\<open>mpi_op\<close>: \<open>MPI.MAX\<close> for \<open>SlamMaxHeuristic\<close>, \<open>MPI.MIN\<close> for \<open>SlamMinHeuristic\<close>.\<close>

fun mpi_op :: "slam_kind \<Rightarrow> real \<Rightarrow> real \<Rightarrow> real" where
  "mpi_op SlamMax = max"
| "mpi_op SlamMin = min"

text \<open>
  \<open>np.amax(m, axis=0)\<close> and \<open>np.amin(m, axis=0)\<close> reduce the rows of a matrix with the
  elementwise maximum (minimum); there is nothing to start from in a matrix of no rows.
\<close>

definition reduce_axis0 :: "(real \<Rightarrow> real \<Rightarrow> real) \<Rightarrow> real list list \<Rightarrow> error + real list" where
  "reduce_axis0 f m =
     (case m of [] \<Rightarrow> Inl ValueError | r # rs \<Rightarrow> Inr (foldl (map2 f) r rs))"

fun numpy_op :: "slam_kind \<Rightarrow> real list list \<Rightarrow> error + real list" where
  "numpy_op SlamMax m = reduce_axis0 max m"
| "numpy_op SlamMin m = reduce_axis0 min m"

text \<open>\<open>np.reshape(v, (rows, cols))\<close> of a flat vector of \<open>rows * cols\<close> entries, row by row.\<close>

definition reshape :: "real list \<Rightarrow> nat \<Rightarrow> nat \<Rightarrow> real list list" where
  "reshape v rows cols = map (\<lambda>i. take cols (drop (i * cols) v)) [0..<rows]"

text \<open>
  \<open>extract_local_candidate_soln\<close>, of the number of local scenarios and \<open>self.localnonants\<close>.
  \<open>//\<close> raises on a rank without scenarios; both assertions are kept.
\<close>

definition extract_local_candidate_soln ::
    "slam_kind \<Rightarrow> nat \<Rightarrow> real list \<Rightarrow> error + real list" where
  "extract_local_candidate_soln kind num_scen localnonants =
     (if num_scen = 0 then Inl ZeroDivisionError
      else let num_vars = length localnonants div num_scen
           in if num_scen * num_vars \<noteq> length localnonants then Inl AssertionError
              else let nonant_matrix = reshape localnonants num_scen num_vars
                   in case numpy_op kind nonant_matrix of
                        Inl e \<Rightarrow> Inl e
                      | Inr local_candidate \<Rightarrow>
                          if length local_candidate \<noteq> num_vars then Inl AssertionError
                          else Inr local_candidate)"

text \<open>
  \<open>cylinder_comm.Allreduce(sendbuf, recvbuf, op)\<close> as one rank sees it: \<open>peers\<close> are the
  buffers the other ranks of the cylinder communicator contribute; all must have the length
  of the rank's own.  The result is the elementwise reduction of all of them.
\<close>

definition Allreduce ::
    "(real \<Rightarrow> real \<Rightarrow> real) \<Rightarrow> real list \<Rightarrow> real list list \<Rightarrow> error + real list" where
  "Allreduce f sendbuf peers =
     (if list_all (\<lambda>p. length p = length sendbuf) peers
      then Inr (foldl (map2 f) sendbuf peers)
      else Inl MPIError)"

text \<open>
  The inner loop of \<open>main\<close> over \<open>enumerate(s._mpisppy_data.nonant_indices.values())\<close>, from
  index \<open>ix\<close> on: a surrogate nonant is skipped by \<open>continue\<close>; any other variable takes
  \<open>global_candidate[ix]\<close>, rounded with the bias when binary or integer, and is handed to a
  persistent solver.  The result is the variables and the \<open>update_var\<close> calls made.
\<close>

fun fix_nonants ::
    "pyval \<Rightarrow> real list \<Rightarrow> string list \<Rightarrow> bool \<Rightarrow> nat \<Rightarrow> var list
      \<Rightarrow> error + (var list \<times> var list)" where
  "fix_nonants rounding_bias global_candidate surrogates is_pers ix [] = Inr ([], [])"
| "fix_nonants rounding_bias global_candidate surrogates is_pers ix (v # vs) =
     (if var_name v \<in> set surrogates
      then (case fix_nonants rounding_bias global_candidate surrogates is_pers (Suc ix) vs of
              Inl e \<Rightarrow> Inl e
            | Inr (vs', ups) \<Rightarrow> Inr (v # vs', ups))
      else if length global_candidate \<le> ix then Inl IndexError
      else case (if is_binary v \<or> is_integer v
                 then round_with_bias (global_candidate ! ix) rounding_bias
                 else Inr (global_candidate ! ix)) of
             Inl e \<Rightarrow> Inl e
           | Inr val \<Rightarrow>
               (case fix_nonants rounding_bias global_candidate surrogates is_pers (Suc ix) vs of
                  Inl e \<Rightarrow> Inl e
                | Inr (vs', ups) \<Rightarrow>
                    Inr (var_fix val v # vs', (if is_pers then [var_fix val v] else []) @ ups)))"

text \<open>The outer loop over \<open>self.opt.local_scenarios.values()\<close>.\<close>

fun fix_scenarios :: "pyval \<Rightarrow> real list \<Rightarrow> scenario list \<Rightarrow> error + scenario list" where
  "fix_scenarios rounding_bias global_candidate [] = Inr []"
| "fix_scenarios rounding_bias global_candidate (s # ss) =
     (case fix_nonants rounding_bias global_candidate (all_surrogate_nonants s)
             (is_persistent s) 0 (nonant_indices s) of
        Inl e \<Rightarrow> Inl e
      | Inr (vs, ups) \<Rightarrow>
          (case fix_scenarios rounding_bias global_candidate ss of
             Inl e \<Rightarrow> Inl e
           | Inr ss' \<Rightarrow>
               Inr (s\<lparr>nonant_indices := vs, solver_updates := solver_updates s @ ups\<rparr> # ss')))"

section \<open>The wrapped optimizer and the spoke\<close>

text \<open>
  The methods of the wrapped optimizer (\<open>self.opt\<close>, an \<open>Xhat_Eval\<close>) and of the \<open>XhatLooper\<close>
  extension are not among the sources.  Every call of one is recorded, in order.
\<close>

datatype call =
    Update_E1
  | Lazy_create_solvers
  | XhatLooper_init
  | Pre_iter0
  | Save_original_nonants
  | Post_iter0
  | Save_nonants
  | Put_nonant_cache "real list"
  | Restore_nonants bool
  | Xhat_looper pyval bool
  | Calculate_incumbent bool

record optimizer =
  multistage :: bool
  is_Xhat_Eval :: bool
  options :: pydict
  local_scenarios :: "scenario list"
  remote_probability :: real
  E1 :: real
  E1_tolerance :: real
  cylinder_rank :: nat
  nonant_cache :: "real list option"
  calls :: "call list"

definition called :: "call \<Rightarrow> optimizer \<Rightarrow> optimizer" where
  "called c p = p\<lparr>calls := calls p @ [c]\<rparr>"

text \<open>
  Modelled from the spec: \<open>_update_E1\<close> (spbase.py is missing) makes \<open>E1\<close> the total
  probability of the scenarios: the sum over the local scenarios plus \<open>remote_probability\<close>,
  what the other ranks of the cylinder add in the reduction.
\<close>

definition update_E1 :: "optimizer \<Rightarrow> optimizer" where
  "update_E1 p =
     called Update_E1
       (p\<lparr>E1 := sum_list (map probability (local_scenarios p)) + remote_probability p\<rparr>)"

text \<open>
  Modelled from the spec: \<open>_save_nonants\<close> (phbase.py is missing) caches the current values of
  the nonants of the local scenarios as the restore point.
\<close>

definition save_nonants :: "optimizer \<Rightarrow> optimizer" where
  "save_nonants p =
     called Save_nonants
       (p\<lparr>nonant_cache :=
            Some (concat (map (\<lambda>s. map var_value (nonant_indices s)) (local_scenarios p)))\<rparr>)"

text \<open>
  Modelled from the spec: \<open>_put_nonant_cache\<close> (phbase.py is missing) pushes a vector into
  the nonant cache.
\<close>

definition put_nonant_cache :: "real list \<Rightarrow> optimizer \<Rightarrow> optimizer" where
  "put_nonant_cache v p = called (Put_nonant_cache v) (p\<lparr>nonant_cache := Some v\<rparr>)"

text \<open>
  A spoke object: the wrapped optimizer, the nonants last received from the hub, the
  direction and state of its bound, and the attributes \<open>slam_heur_prep\<close> sets.
\<close>

record spoke =
  opt :: optimizer
  localnonants :: "real list"
  direction :: sense
  bound :: bound_state
  tee :: pyval
  verbose :: pyval

text \<open>
  What the world shows a spoke in one pass of its loop: the answer of \<open>got_kill_signal()\<close>;
  the answer of \<open>update_nonants()\<close> (\<open>new_nonants\<close>), which is \<open>Some v\<close> when a new vector
  \<open>v\<close> has arrived in \<open>localnonants\<close>; the local candidates of the other ranks of the cylinder;
  and the value the optimizer computes (\<open>calculate_incumbent\<close>, \<open>xhat_looper\<close>).
\<close>

record observation =
  kill_signal :: bool
  hub_nonants :: "real list option"
  peer_candidates :: "real list list"
  objective :: double

text \<open>What a spoke does that others can see: a kill-signal test with its answer, a publish
  through \<open>update_if_improving\<close>, a printed line.\<close>

datatype event =
    GotKillSignal bool
  | Published double
  | Printed string "real option"

text \<open>How \<open>main\<close> stands after the observations given: it has returned, it is still looping,
  or it has raised.  The number is the iteration counter.\<close>

datatype outcome =
    Exited (iter_of: nat) (spoke_of: spoke)
  | Running (iter_of: nat) (spoke_of: spoke)
  | Crashed (error_of: error)

text \<open>
  The loop both \<open>main\<close> methods share: \<open>while not self.got_kill_signal(): pass; iter += 1\<close>.
  The debug logging at every 10000th pass has no effect on the state and is left out.
  \<open>got_kill_signal()\<close> is a non-blocking read of the hub's kill flag; its answer in a
  pass is the observation of that pass.
\<close>

fun while_not_killed ::
    "(observation \<Rightarrow> spoke \<Rightarrow> error + (event list \<times> spoke)) \<Rightarrow> observation list \<Rightarrow> nat
      \<Rightarrow> spoke \<Rightarrow> event list \<times> outcome" where
  "while_not_killed pass [] iter sp = ([], Running iter sp)"
| "while_not_killed pass (ob # obs) iter sp =
     (if kill_signal ob then ([GotKillSignal True], Exited iter sp)
      else case pass ob sp of
             Inl e \<Rightarrow> ([GotKillSignal False], Crashed e)
           | Inr (evs, sp') \<Rightarrow>
               (GotKillSignal False # evs @ fst (while_not_killed pass obs (iter + 1) sp'),
                snd (while_not_killed pass obs (iter + 1) sp')))"

text \<open>\<open>self.update_if_improving(obj)\<close> on the spoke, with the publish it makes, if any.\<close>

definition spoke_update_if_improving :: "double \<Rightarrow> spoke \<Rightarrow> event list \<times> spoke" where
  "spoke_update_if_improving obj sp =
     (let r = update_if_improving (direction sp) obj (bound sp)
      in (if fst r then [Published obj] else [], sp\<lparr>bound := snd r\<rparr>))"

text \<open>\<open>_SlamHeuristic.slam_heur_prep\<close>.  The class name the messages start with is left out.\<close>

definition slam_heur_prep :: "spoke \<Rightarrow> error + spoke" where
  "slam_heur_prep sp =
     (if multistage (opt sp)
      then Inl (RuntimeError ''only supports two-stage models at this time.'')
      else if \<not> is_Xhat_Eval (opt sp)
      then Inl (RuntimeError ''must be used with Xhat_Eval.'')
      else case map_of (options (opt sp)) ''verbose'' of
             None \<Rightarrow> Inl (KeyError ''verbose'')
           | Some verbose_opt \<Rightarrow>
               Inr (sp\<lparr>tee := (case map_of (options (opt sp)) ''tee-rank0-solves'' of
                                 None \<Rightarrow> PyBool False
                               | Some t \<Rightarrow> t),
                        verbose := verbose_opt,
                        opt := called Lazy_create_solvers (update_E1 (opt sp))\<rparr>))"

text \<open>
  One pass of the loop of \<open>_SlamHeuristic.main\<close> after the kill-signal test: on new nonants,
  the local candidate, the reduction over the cylinder, the rounding bias (0.0 when the key is
  absent), the fixing of the nonants, the incumbent and \<open>update_if_improving\<close>.
\<close>

definition slam_pass :: "slam_kind \<Rightarrow> observation \<Rightarrow> spoke \<Rightarrow> error + (event list \<times> spoke)" where
  "slam_pass kind ob sp =
     (case hub_nonants ob of
        None \<Rightarrow> Inr ([], sp)
      | Some v \<Rightarrow>
          (case extract_local_candidate_soln kind (length (local_scenarios (opt sp))) v of
             Inl e \<Rightarrow> Inl e
           | Inr local_candidate \<Rightarrow>
               (case Allreduce (mpi_op kind) local_candidate (peer_candidates ob) of
                  Inl e \<Rightarrow> Inl e
                | Inr global_candidate \<Rightarrow>
                    (let rounding_bias = dict_get (options (opt sp)) ''rounding_bias'' (PyFloat 0)
                     in case fix_scenarios rounding_bias global_candidate
                               (local_scenarios (opt sp)) of
                          Inl e \<Rightarrow> Inl e
                        | Inr scens \<Rightarrow>
                            Inr (spoke_update_if_improving (objective ob)
                                   (sp\<lparr>localnonants := v,
                                       opt := called (Calculate_incumbent False)
                                                ((opt sp)\<lparr>local_scenarios := scens\<rparr>)\<rparr>))))))"

text \<open>\<open>_SlamHeuristic.main\<close>: the preparation, then the loop from \<open>slam_iter = 1\<close>.\<close>

definition slam_main :: "slam_kind \<Rightarrow> observation list \<Rightarrow> spoke \<Rightarrow> event list \<times> outcome" where
  "slam_main kind obs sp =
     (case slam_heur_prep sp of
        Inl e \<Rightarrow> ([], Crashed e)
      | Inr sp' \<Rightarrow> while_not_killed (slam_pass kind) obs 1 sp')"

text \<open>
  The reduction in two levels, for the ranks of one cylinder communicator: \<open>parts\<close> gives
  each rank its block of rows (the nonants of its local scenarios), the rank's own block
  first.  Every rank extracts its local candidate from its flat vector, and \<open>Allreduce\<close>
  combines them.  \<open>collect\<close> gathers the peers' candidates; the first exception wins.
\<close>

fun collect :: "(error + 'a) list \<Rightarrow> error + 'a list" where
  "collect [] = Inr []"
| "collect (Inl e # rs) = Inl e"
| "collect (Inr x # rs) = (case collect rs of Inl e \<Rightarrow> Inl e | Inr xs \<Rightarrow> Inr (x # xs))"

definition two_level_candidate :: "slam_kind \<Rightarrow> real list list list \<Rightarrow> error + real list" where
  "two_level_candidate kind parts =
     (case parts of
        [] \<Rightarrow> Inl MPIError
      | own # others \<Rightarrow>
          (case extract_local_candidate_soln kind (length own) (concat own) of
             Inl e \<Rightarrow> Inl e
           | Inr local_candidate \<Rightarrow>
               (case collect (map (\<lambda>p. extract_local_candidate_soln kind (length p) (concat p))
                                others) of
                  Inl e \<Rightarrow> Inl e
                | Inr peers \<Rightarrow> Allreduce (mpi_op kind) local_candidate peers)))"

text \<open>The extremum of a set of values: the greatest for the max variant, the least for
  the min variant.\<close>

fun extremum :: "slam_kind \<Rightarrow> real set \<Rightarrow> real" where
  "extremum SlamMax A = Max A"
| "extremum SlamMin A = Min A"

section \<open>xhatlooper_bounder.py: the look-ahead spoke\<close>

text \<open>
  \<open>XhatLooperInnerBound.xhatlooper_prep\<close>: the two checks, the calls of the warm-up, the test
  of the total probability with what is printed before \<open>quit()\<close>, and the cache of the
  nonants.  The result is what was printed and either the exception or the prepared spoke.
\<close>

definition xhatlooper_prep :: "spoke \<Rightarrow> event list \<times> (error + spoke)" where
  "xhatlooper_prep sp =
     (if (case map_of (options (opt sp)) ''bundles_per_rank'' of
            None \<Rightarrow> False
          | Some b \<Rightarrow> py_ne_zero b)
      then ([], Inl (RuntimeError ''xhat spokes cannot have bundles (yet)''))
      else if \<not> is_Xhat_Eval (opt sp)
      then ([], Inl (RuntimeError ''XhatShuffleInnerBound must be used with Xhat_Eval.''))
      else let p = update_E1
                     (called Lazy_create_solvers
                        (called Save_original_nonants
                           (called Pre_iter0 (called XhatLooper_init (opt sp)))))
           in if \<bar>1 - E1 p\<bar> > E1_tolerance p
              then ((if cylinder_rank p = 0
                     then [Printed ''ERROR'' None,
                           Printed ''Total probability of scenarios was '' (Some (E1 p)),
                           Printed ''E1_tolerance = '' (Some (E1_tolerance p))]
                     else []),
                    Inl SystemExit)
              else ([], Inr (sp\<lparr>opt := save_nonants (called Post_iter0 p)\<rparr>)))"

text \<open>
  One pass of the loop of \<open>XhatLooperInnerBound.main\<close> after the kill-signal test: on new
  nonants, the cache, the restore without the persistent solvers, the search and
  \<open>update_if_improving\<close>.
\<close>

definition xhat_pass :: "pyval \<Rightarrow> observation \<Rightarrow> spoke \<Rightarrow> error + (event list \<times> spoke)" where
  "xhat_pass scen_limit ob sp =
     (case hub_nonants ob of
        None \<Rightarrow> Inr ([], sp)
      | Some v \<Rightarrow>
          Inr (spoke_update_if_improving (objective ob)
                 (sp\<lparr>localnonants := v,
                     opt := called (Xhat_looper scen_limit False)
                              (called (Restore_nonants False)
                                 (put_nonant_cache v (opt sp)))\<rparr>)))"

text \<open>
  \<open>XhatLooperInnerBound.main\<close>: the warm-up, then
  \<open>self.opt.options['xhat_looper_options']['scen_limit']\<close>, then the loop from
  \<open>xh_iter = 1\<close>.
\<close>

definition xhat_main :: "observation list \<Rightarrow> spoke \<Rightarrow> event list \<times> outcome" where
  "xhat_main obs sp =
     (case xhatlooper_prep sp of
        (printed, Inl e) \<Rightarrow> (printed, Crashed e)
      | (printed, Inr sp') \<Rightarrow>
          (case map_of (options (opt sp')) ''xhat_looper_options'' of
             None \<Rightarrow> (printed, Crashed (KeyError ''xhat_looper_options''))
           | Some d \<Rightarrow>
               (case py_getitem d ''scen_limit'' of
                  Inl e \<Rightarrow> (printed, Crashed e)
                | Inr scen_limit \<Rightarrow>
                    (printed @ fst (while_not_killed (xhat_pass scen_limit) obs 1 sp'),
                     snd (while_not_killed (xhat_pass scen_limit) obs 1 sp')))))"

section \<open>Reading a trace\<close>

text \<open>The answers of the kill-signal tests of a trace, in order.\<close>

fun kill_checks :: "event list \<Rightarrow> bool list" where
  "kill_checks [] = []"
| "kill_checks (GotKillSignal b # es) = b # kill_checks es"
| "kill_checks (e # es) = kill_checks es"

text \<open>What a trace shows after the first kill-signal test that answered true.\<close>

fun after_kill :: "event list \<Rightarrow> event list" where
  "after_kill [] = []"
| "after_kill (GotKillSignal True # es) = es"
| "after_kill (e # es) = after_kill es"

text \<open>The number of passes before the kill signal is first seen up.\<close>

definition passes_before_kill :: "observation list \<Rightarrow> nat" where
  "passes_before_kill obs = length (takeWhile (\<lambda>ob. \<not> kill_signal ob) obs)"

text \<open>A list of events that are all publishes.\<close>

definition publishes_only :: "event list \<Rightarrow> bool" where
  "publishes_only evs = list_all (\<lambda>e. case e of Published v \<Rightarrow> True | _ \<Rightarrow> False) evs"

section \<open>A small instance\<close>

text \<open>
  Two local scenarios with three nonants each: \<open>x\<close> is an integer variable, \<open>y\<close> is
  continuous, and \<open>z\<close> is an integer variable that is a surrogate nonant.  The first scenario
  has a persistent solver.  The optimizer is two-stage and an \<open>Xhat_Eval\<close>; the probabilities
  add up to one.
\<close>

definition example_vars :: "var list" where
  "example_vars =
     [\<lparr>var_name = ''x'', is_binary = False, is_integer = True, fixed = False, var_value = 0\<rparr>,
      \<lparr>var_name = ''y'', is_binary = False, is_integer = False, fixed = False, var_value = 0\<rparr>,
      \<lparr>var_name = ''z'', is_binary = False, is_integer = True, fixed = False, var_value = 0\<rparr>]"

definition example_scenarios :: "scenario list" where
  "example_scenarios =
     [\<lparr>nonant_indices = example_vars, all_surrogate_nonants = [''z''],
       probability = 1 / 2, is_persistent = True, solver_updates = []\<rparr>,
      \<lparr>nonant_indices = example_vars, all_surrogate_nonants = [''z''],
       probability = 1 / 2, is_persistent = False, solver_updates = []\<rparr>]"

definition example_optimizer :: "pydict \<Rightarrow> optimizer" where
  "example_optimizer opts =
     \<lparr>multistage = False, is_Xhat_Eval = True, options = opts,
      local_scenarios = example_scenarios, remote_probability = 0, E1 = 0,
      E1_tolerance = 1 / 100000, cylinder_rank = 0, nonant_cache = None, calls = []\<rparr>"

definition example_spoke :: "pydict \<Rightarrow> spoke" where
  "example_spoke opts =
     \<lparr>opt = example_optimizer opts, localnonants = [], direction = Minimize,
      bound = initial_bound_state Minimize, tee = PyBool False, verbose = PyBool False\<rparr>"

text \<open>Options with every key the two spokes read, and the same without the rounding bias
  and without the search limit.\<close>

definition full_options :: pydict where
  "full_options =
     [(''verbose'', PyBool False), (''rounding_bias'', PyFloat (1 / 2)),
      (''xhat_looper_options'', PyDict [(''scen_limit'', PyInt 3)])]"


text \<open>
  Three passes: one in which the hub's nonants are new (the rows \<open>[2.3, 1.5, 7]\<close> and
  \<open>[1, 2.5, 4]\<close>, while another rank contributes the candidate \<open>[2, 2.6, 1]\<close>) and the
  incumbent found is 10; one without news; one in which the kill signal is up.
\<close>

definition pass_new :: observation where
  "pass_new =
     \<lparr>kill_signal = False, hub_nonants = Some [23 / 10, 3 / 2, 7, 1, 5 / 2, 4],
      peer_candidates = [[2, 26 / 10, 1]], objective = Fin 10\<rparr>"

definition pass_idle :: observation where
  "pass_idle =
     \<lparr>kill_signal = False, hub_nonants = None, peer_candidates = [], objective = Fin 0\<rparr>"

definition pass_kill :: observation where
  "pass_kill =
     \<lparr>kill_signal = True, hub_nonants = Some [0, 0, 0, 0, 0, 0], peer_candidates = [[0, 0, 0]],
      objective = Fin 1\<rparr>"

text \<open>The spokes of the instance with a multistage model, with an optimizer that is not an
  \<open>Xhat_Eval\<close>, and, on the cylinder rank given, with probabilities that add up to 1.25.\<close>

definition multistage_spoke :: spoke where
  "multistage_spoke =
     (example_spoke full_options)\<lparr>opt := (example_optimizer full_options)\<lparr>multistage := True\<rparr>\<rparr>"

definition unwrapped_spoke :: spoke where
  "unwrapped_spoke =
     (example_spoke full_options)\<lparr>opt := (example_optimizer full_options)\<lparr>is_Xhat_Eval := False\<rparr>\<rparr>"


section \<open>New-data detection\<close>










section \<open>The bound ratchet\<close>

lemma dlt_trans: "dlt x y \<Longrightarrow> dlt y z \<Longrightarrow> dlt x z"
  by (cases x; cases y; cases z) simp_all

lemma dlt_irrefl: "\<not> dlt x x"
  by (cases x) simp_all

lemma dle_trans: "dle x y \<Longrightarrow> dle y z \<Longrightarrow> dle x z"
  unfolding dle_def using dlt_trans by blast

lemma update_min_le: "dle (best (snd (update_if_improving Minimize v st))) (best st)"
  by (simp add: update_if_improving_def improving_def dle_def)

lemma update_max_ge: "dle (best st) (best (snd (update_if_improving Maximize v st)))"
  by (simp add: update_if_improving_def improving_def dle_def)

lemma history_min_below:
  "\<forall>st' \<in> set (bound_history Minimize vs st). dle (best st') (best st)"
proof (induction vs arbitrary: st)
  case Nil
  then show ?case by simp
next
  case (Cons v vs)
  let ?st = "snd (update_if_improving Minimize v st)"
  have a: "dle (best ?st) (best st)" by (rule update_min_le)
  have "\<forall>st' \<in> set (bound_history Minimize vs ?st). dle (best st') (best ?st)"
    by (rule Cons.IH)
  with a have "\<forall>st' \<in> set (bound_history Minimize vs ?st). dle (best st') (best st)"
    using dle_trans by blast
  with a show ?case by (simp add: Let_def)
qed

lemma history_min_sorted:
  "sorted_wrt (\<lambda>a b. dle b a) (map best (st # bound_history Minimize vs st))"
proof (induction vs arbitrary: st)
  case Nil
  then show ?case by simp
next
  case (Cons v vs)
  let ?st = "snd (update_if_improving Minimize v st)"
  have "sorted_wrt (\<lambda>a b. dle b a) (map best (?st # bound_history Minimize vs ?st))"
    by (rule Cons.IH)
  moreover have "\<forall>st' \<in> set (?st # bound_history Minimize vs ?st). dle (best st') (best st)"
    using history_min_below [of "v # vs" st] by (simp add: Let_def)
  ultimately show ?case by (simp add: Let_def)
qed

lemma history_max_above:
  "\<forall>st' \<in> set (bound_history Maximize vs st). dle (best st) (best st')"
proof (induction vs arbitrary: st)
  case Nil
  then show ?case by simp
next
  case (Cons v vs)
  let ?st = "snd (update_if_improving Maximize v st)"
  have a: "dle (best st) (best ?st)" by (rule update_max_ge)
  have "\<forall>st' \<in> set (bound_history Maximize vs ?st). dle (best ?st) (best st')"
    by (rule Cons.IH)
  with a have "\<forall>st' \<in> set (bound_history Maximize vs ?st). dle (best st) (best st')"
    using dle_trans by blast
  with a show ?case by (simp add: Let_def)
qed

lemma history_max_sorted:
  "sorted_wrt dle (map best (st # bound_history Maximize vs st))"
proof (induction vs arbitrary: st)
  case Nil
  then show ?case by simp
next
  case (Cons v vs)
  let ?st = "snd (update_if_improving Maximize v st)"
  have "sorted_wrt dle (map best (?st # bound_history Maximize vs ?st))"
    by (rule Cons.IH)
  moreover have "\<forall>st' \<in> set (?st # bound_history Maximize vs ?st). dle (best st) (best st')"
    using history_max_above [of "v # vs" st] by (simp add: Let_def)
  ultimately show ?case by (simp add: Let_def)
qed

text \<open>
  Claim C2.  Over every sequence of \<open>update_if_improving\<close> calls of one spoke the tracked best
  is non-increasing for a minimising spoke and non-decreasing for a maximising one; a call
  whose argument does not strictly improve the tracked best, an exact tie included, returns
  the state as it was (same best, same window, nothing published); and a minimising spoke
  starts from \<open>+infinity\<close>.
\<close>

theorem update_if_improving_ratchet:
  "sorted_wrt (\<lambda>a b. dle b a) (map best (st # bound_history Minimize vs st))
   \<and> sorted_wrt dle (map best (st # bound_history Maximize vs st))
   \<and> (\<not> improving s v (best st) \<longrightarrow> update_if_improving s v st = (False, st))
   \<and> update_if_improving s (best st) st = (False, st)
   \<and> best (initial_bound_state Minimize) = PosInf"
  using history_min_sorted [of st vs] history_max_sorted [of st vs]
  by (simp add: update_if_improving_def improving_def dlt_irrefl initial_bound_state_def
      split: sense.splits)

text \<open>
  The end-to-end scenario of the specification: from \<open>+infinity\<close>, 10 is taken (first
  publish), 12 is rejected and publishes nothing, 8 is taken (second publish).
\<close>

theorem update_if_improving_ratchet_witness:
  "\<not> improving Minimize (Fin 12)
       (best \<lparr>best = Fin 10, bound_window = \<lparr>payload = [Fin 10], write_counter = 1\<rparr>\<rparr>)
   \<and> update_if_improving Minimize (Fin 12)
       \<lparr>best = Fin 10, bound_window = \<lparr>payload = [Fin 10], write_counter = 1\<rparr>\<rparr>
     = (False, \<lparr>best = Fin 10, bound_window = \<lparr>payload = [Fin 10], write_counter = 1\<rparr>\<rparr>)
   \<and> map (\<lambda>st. (best st, write_counter (bound_window st)))
         (bound_history Minimize [Fin 10, Fin 12, Fin 8] (initial_bound_state Minimize))
     = [(Fin 10, 1), (Fin 10, 1), (Fin 8, 2)]
   \<and> sorted_wrt (\<lambda>a b. dle b a)
         (map best (initial_bound_state Minimize
            # bound_history Minimize [Fin 10, Fin 12, Fin 8] (initial_bound_state Minimize)))"
  using update_if_improving_ratchet
    [of "initial_bound_state Minimize" "[Fin 10, Fin 12, Fin 8]" Minimize "Fin 12"]
    update_if_improving_ratchet
    [of "\<lparr>best = Fin 10, bound_window = \<lparr>payload = [Fin 10], write_counter = 1\<rparr>\<rparr>"
        "[]" Minimize "Fin 12"]
  by (simp add: update_if_improving_def improving_def initial_bound_state_def publish_def
      allocate_def Let_def)

section \<open>The loop of a spoke\<close>

lemma publishes_only_append:
  "publishes_only evs \<Longrightarrow> kill_checks (evs @ tr) = kill_checks tr \<and> after_kill (evs @ tr) = after_kill tr"
proof (induction evs)
  case Nil
  then show ?case by simp
next
  case (Cons e evs)
  then show ?case by (cases e) (simp_all add: publishes_only_def)
qed

lemma spoke_update_publishes_only:
  "publishes_only (fst (spoke_update_if_improving obj sp))"
  by (simp add: spoke_update_if_improving_def publishes_only_def Let_def)

lemma slam_pass_publishes_only:
  "slam_pass kind ob sp = Inr (evs, sp') \<Longrightarrow> publishes_only evs"
  using spoke_update_publishes_only
  by (auto simp: slam_pass_def Let_def publishes_only_def split: option.splits sum.splits)
    (metis fst_conv)+

lemma xhat_pass_publishes_only:
  "xhat_pass scen_limit ob sp = Inr (evs, sp') \<Longrightarrow> publishes_only evs"
  using spoke_update_publishes_only
  by (auto simp: xhat_pass_def publishes_only_def split: option.splits) (metis fst_conv)

lemma loop_after_kill:
  assumes "\<And>ob sp evs sp'. pass ob sp = Inr (evs, sp') \<Longrightarrow> publishes_only evs"
  shows "after_kill (fst (while_not_killed pass obs it sp)) = []"
proof (induction obs arbitrary: it sp)
  case Nil
  then show ?case by simp
next
  case (Cons ob obs)
  show ?case
  proof (cases "kill_signal ob")
    case True
    then show ?thesis by simp
  next
    case False
    show ?thesis
    proof (cases "pass ob sp")
      case (Inl e)
      with False show ?thesis by simp
    next
      case (Inr r)
      obtain evs sp' where r: "r = (evs, sp')" by (cases r)
      from assms Inr r have "publishes_only evs" by blast
      then show ?thesis
        using False Inr r Cons.IH [of "it + 1" sp'] by (simp add: publishes_only_append)
    qed
  qed
qed

lemma loop_exited:
  assumes "\<And>ob sp evs sp'. pass ob sp = Inr (evs, sp') \<Longrightarrow> publishes_only evs"
    and "snd (while_not_killed pass obs it sp) = Exited it' sp'"
  shows "passes_before_kill obs < length obs
       \<and> kill_signal (obs ! passes_before_kill obs)
       \<and> it' = it + passes_before_kill obs
       \<and> kill_checks (fst (while_not_killed pass obs it sp))
           = replicate (passes_before_kill obs) False @ [True]
       \<and> while_not_killed pass (obs @ later) it sp = while_not_killed pass obs it sp"
  using assms(2)
proof (induction obs arbitrary: it sp)
  case Nil
  then show ?case by simp
next
  case (Cons ob obs)
  show ?case
  proof (cases "kill_signal ob")
    case True
    then show ?thesis using Cons.prems by (simp add: passes_before_kill_def)
  next
    case False
    show ?thesis
    proof (cases "pass ob sp")
      case (Inl e)
      with False Cons.prems show ?thesis by simp
    next
      case (Inr r)
      obtain evs sp1 where r: "r = (evs, sp1)" by (cases r)
      from assms(1) Inr r have po: "publishes_only evs" by blast
      from Cons.prems False Inr r
      have "snd (while_not_killed pass obs (it + 1) sp1) = Exited it' sp'" by simp
      from Cons.IH [OF this] po False Inr r show ?thesis
        by (simp add: passes_before_kill_def publishes_only_append)
    qed
  qed
qed

lemma loop_running:
  assumes "\<And>ob sp evs sp'. pass ob sp = Inr (evs, sp') \<Longrightarrow> publishes_only evs"
    and "snd (while_not_killed pass obs it sp) = Running it' sp'"
  shows "(\<forall>ob\<in>set obs. \<not> kill_signal ob)
       \<and> it' = it + length obs
       \<and> kill_checks (fst (while_not_killed pass obs it sp)) = replicate (length obs) False"
  using assms(2)
proof (induction obs arbitrary: it sp)
  case Nil
  then show ?case by simp
next
  case (Cons ob obs)
  show ?case
  proof (cases "kill_signal ob")
    case True
    then show ?thesis using Cons.prems by simp
  next
    case False
    show ?thesis
    proof (cases "pass ob sp")
      case (Inl e)
      with False Cons.prems show ?thesis by simp
    next
      case (Inr r)
      obtain evs sp1 where r: "r = (evs, sp1)" by (cases r)
      from assms(1) Inr r have po: "publishes_only evs" by blast
      from Cons.prems False Inr r
      have "snd (while_not_killed pass obs (it + 1) sp1) = Running it' sp'" by simp
      from Cons.IH [OF this] po False Inr r show ?thesis
        by (simp add: publishes_only_append)
    qed
  qed
qed

lemma loop_crashed:
  "snd (while_not_killed pass obs it sp) = Crashed e \<Longrightarrow> \<exists>ob sp0. pass ob sp0 = Inl e"
proof (induction obs arbitrary: it sp)
  case Nil
  then show ?case by simp
next
  case (Cons ob obs)
  show ?case
  proof (cases "pass ob sp")
    case (Inl e')
    with Cons.prems show ?thesis by (auto split: if_splits)
  next
    case (Inr r)
    obtain evs sp1 where r: "r = (evs, sp1)" by (cases r)
    from Cons.prems Inr r have "snd (while_not_killed pass obs (it + 1) sp1) = Crashed e"
      by (auto split: if_splits)
    from Cons.IH [OF this] show ?thesis .
  qed
qed

lemma fix_nonants_errors:
  "fix_nonants bias cand sur pers ix vs = Inl e \<Longrightarrow> e = IndexError \<or> e = TypeError"
proof (induction vs arbitrary: ix)
  case Nil
  then show ?case by simp
next
  case (Cons v vs)
  then show ?case
    by (auto simp: round_with_bias_def split: if_splits sum.splits option.splits)
qed

lemma fix_scenarios_errors:
  "fix_scenarios bias cand scens = Inl e \<Longrightarrow> e = IndexError \<or> e = TypeError"
proof (induction scens)
  case Nil
  then show ?case by simp
next
  case (Cons s ss)
  then show ?case
    using fix_nonants_errors by (auto split: sum.splits)
qed

lemma extract_errors:
  "extract_local_candidate_soln kind n v = Inl e \<Longrightarrow>
   e = ZeroDivisionError \<or> e = AssertionError \<or> e = ValueError"
  by (cases kind)
    (auto simp: extract_local_candidate_soln_def Let_def reduce_axis0_def
      split: if_splits sum.splits list.splits)

lemma slam_pass_errors:
  "slam_pass kind ob sp = Inl e \<Longrightarrow>
   e \<in> {ZeroDivisionError, AssertionError, ValueError, MPIError, IndexError, TypeError}"
  using extract_errors fix_scenarios_errors
  by (fastforce simp: slam_pass_def Let_def Allreduce_def split: option.splits sum.splits if_splits)

lemma xhatlooper_prep_ok:
  "xhatlooper_prep sp = (pr, Inr sp1) \<Longrightarrow> pr = [] \<and> options (opt sp1) = options (opt sp)"
  by (auto simp: xhatlooper_prep_def Let_def update_E1_def called_def save_nonants_def
      split: if_splits)

lemma xhatlooper_prep_printed:
  "kill_checks (fst (xhatlooper_prep sp)) = [] \<and> after_kill (fst (xhatlooper_prep sp)) = []"
  by (simp add: xhatlooper_prep_def Let_def)

lemma slam_main_shape:
  "(\<exists>e. \<forall>obs. slam_main kind obs sp = ([], Crashed e))
   \<or> (\<exists>sp1. \<forall>obs. slam_main kind obs sp = while_not_killed (slam_pass kind) obs 1 sp1)"
  by (cases "slam_heur_prep sp") (auto simp: slam_main_def)

lemma xhat_main_shape:
  "(\<exists>e. \<forall>obs. xhat_main obs sp = (fst (xhatlooper_prep sp), Crashed e))
   \<or> (\<exists>sp1 scen_limit.
         \<forall>obs. xhat_main obs sp = while_not_killed (xhat_pass scen_limit) obs 1 sp1)"
proof (cases "xhatlooper_prep sp")
  case (Pair pr res)
  show ?thesis
  proof (cases res)
    case (Inl e)
    with Pair show ?thesis by (simp add: xhat_main_def)
  next
    case (Inr sp1)
    with Pair have pr: "pr = []" using xhatlooper_prep_ok by blast
    show ?thesis
    proof (cases "map_of (options (opt sp1)) ''xhat_looper_options''")
      case None
      with Pair Inr show ?thesis by (simp add: xhat_main_def)
    next
      case (Some d)
      show ?thesis
      proof (cases "py_getitem d ''scen_limit''")
        case (Inl e)
        with Pair Inr Some show ?thesis by (simp add: xhat_main_def)
      next
        case lim: (Inr scen_limit)
        with Pair Inr Some pr show ?thesis by (auto simp: xhat_main_def)
      qed
    qed
  qed
qed

lemma main_shape:
  assumes "main = slam_main kind \<or> main = xhat_main"
  shows "(\<exists>pr e. kill_checks pr = [] \<and> after_kill pr = [] \<and> (\<forall>obs. main obs sp = (pr, Crashed e)))
   \<or> (\<exists>pass sp1.
         (\<forall>ob s evs s'. pass ob s = Inr (evs, s') \<longrightarrow> publishes_only evs)
         \<and> (\<forall>obs. main obs sp = while_not_killed pass obs 1 sp1))"
  using assms
proof
  assume m: "main = slam_main kind"
  from slam_main_shape [of kind sp] show ?thesis
  proof
    assume "\<exists>e. \<forall>obs. slam_main kind obs sp = ([], Crashed e)"
    then obtain e where "\<forall>obs. main obs sp = ([], Crashed e)" using m by blast
    moreover have "kill_checks [] = [] \<and> after_kill [] = []" by simp
    ultimately show ?thesis by blast
  next
    assume "\<exists>sp1. \<forall>obs. slam_main kind obs sp = while_not_killed (slam_pass kind) obs 1 sp1"
    then obtain sp1 where "\<forall>obs. main obs sp = while_not_killed (slam_pass kind) obs 1 sp1"
      using m by blast
    moreover have "\<forall>ob s evs s'. slam_pass kind ob s = Inr (evs, s') \<longrightarrow> publishes_only evs"
      using slam_pass_publishes_only by blast
    ultimately show ?thesis by blast
  qed
next
  assume m: "main = xhat_main"
  from xhat_main_shape [of sp] show ?thesis
  proof
    assume "\<exists>e. \<forall>obs. xhat_main obs sp = (fst (xhatlooper_prep sp), Crashed e)"
    then obtain e where "\<forall>obs. main obs sp = (fst (xhatlooper_prep sp), Crashed e)"
      using m by blast
    then show ?thesis using xhatlooper_prep_printed [of sp] by blast
  next
    assume "\<exists>sp1 scen_limit.
         \<forall>obs. xhat_main obs sp = while_not_killed (xhat_pass scen_limit) obs 1 sp1"
    then obtain sp1 scen_limit where
      "\<forall>obs. main obs sp = while_not_killed (xhat_pass scen_limit) obs 1 sp1"
      using m by blast
    moreover have "\<forall>ob s evs s'. xhat_pass scen_limit ob s = Inr (evs, s') \<longrightarrow> publishes_only evs"
      using xhat_pass_publishes_only by blast
    ultimately show ?thesis by blast
  qed
qed

lemma slam_main_crash_cases:
  assumes "snd (slam_main kind obs sp) = Crashed e"
  shows "slam_heur_prep sp = Inl e \<or> (\<exists>ob s. slam_pass kind ob s = Inl e)"
proof (cases "slam_heur_prep sp")
  case (Inl e')
  with assms show ?thesis by (simp add: slam_main_def)
next
  case (Inr sp1)
  with assms have "snd (while_not_killed (slam_pass kind) obs 1 sp1) = Crashed e"
    by (simp add: slam_main_def)
  from loop_crashed [OF this] show ?thesis by blast
qed

lemma slam_heur_prep_errors:
  "slam_heur_prep sp = Inl e \<Longrightarrow>
   (multistage (opt sp) \<or> \<not> is_Xhat_Eval (opt sp)) \<and> (\<exists>msg. e = RuntimeError msg)
   \<or> \<not> multistage (opt sp) \<and> is_Xhat_Eval (opt sp) \<and> e = KeyError ''verbose''"
  by (auto simp: slam_heur_prep_def split: if_splits option.splits)

text \<open>
  Claim C3.  For the aggregation spoke (either variant) and for the look-ahead spoke: in
  every run of \<open>main\<close> nothing is done after a kill-signal test that answered true, so no
  publish follows it.  When \<open>main\<close> has returned, the flag was up at the test that ended the
  loop and down at every test before; the kill signal was tested once in each pass and once
  more at the exit, the iteration counter counts the passes, and whatever the world shows
  afterwards changes nothing.  While \<open>main\<close> is still looping, the flag was tested in every
  pass and was never up.
\<close>

theorem kill_signal_ends_loop:
  assumes "main = slam_main kind \<or> main = xhat_main"
  shows "after_kill (fst (main obs sp)) = []
    \<and> (snd (main obs sp) = Exited it sp' \<longrightarrow>
          passes_before_kill obs < length obs
          \<and> kill_signal (obs ! passes_before_kill obs)
          \<and> it = Suc (passes_before_kill obs)
          \<and> kill_checks (fst (main obs sp)) = replicate (passes_before_kill obs) False @ [True]
          \<and> main (obs @ later) sp = main obs sp)
    \<and> (snd (main obs sp) = Running it sp' \<longrightarrow>
          (\<forall>ob\<in>set obs. \<not> kill_signal ob)
          \<and> it = Suc (length obs)
          \<and> kill_checks (fst (main obs sp)) = replicate (length obs) False)"
proof -
  from main_shape [OF assms, of sp] show ?thesis
  proof
    assume "\<exists>pr e. kill_checks pr = [] \<and> after_kill pr = []
        \<and> (\<forall>obs. main obs sp = (pr, Crashed e))"
    then obtain pr e where "after_kill pr = []" "main obs sp = (pr, Crashed e)" by blast
    then show ?thesis by simp
  next
    assume "\<exists>pass sp1.
         (\<forall>ob s evs s'. pass ob s = Inr (evs, s') \<longrightarrow> publishes_only evs)
         \<and> (\<forall>obs. main obs sp = while_not_killed pass obs 1 sp1)"
    then obtain pass sp1 where
      po: "\<And>ob s evs s'. pass ob s = Inr (evs, s') \<Longrightarrow> publishes_only evs"
      and m: "\<And>obs. main obs sp = while_not_killed pass obs 1 sp1"
      by blast
    have a: "after_kill (fst (main obs sp)) = []"
      unfolding m using po by (rule loop_after_kill)
    have b: "passes_before_kill obs < length obs
          \<and> kill_signal (obs ! passes_before_kill obs)
          \<and> it = Suc (passes_before_kill obs)
          \<and> kill_checks (fst (main obs sp)) = replicate (passes_before_kill obs) False @ [True]
          \<and> main (obs @ later) sp = main obs sp"
      if "snd (main obs sp) = Exited it sp'"
      using loop_exited [of pass obs 1 sp1 it sp' later] po that unfolding m by simp
    have c: "(\<forall>ob\<in>set obs. \<not> kill_signal ob)
          \<and> it = Suc (length obs)
          \<and> kill_checks (fst (main obs sp)) = replicate (length obs) False"
      if "snd (main obs sp) = Running it sp'"
      using loop_running [of pass obs 1 sp1 it sp'] po that unfolding m by simp
    from a b c show ?thesis by blast
  qed
qed

text \<open>
  The aggregation spoke on the small instance: two passes, then the kill signal; the two
  further passes offered after it are never run.  The look-ahead spoke is still looping after
  two passes without a kill signal.
\<close>

theorem kill_signal_ends_loop_witness:
  "snd (slam_main SlamMax [pass_new, pass_idle, pass_kill] (example_spoke full_options))
     = Exited 3 (spoke_of (snd (slam_main SlamMax [pass_new, pass_idle, pass_kill]
                                   (example_spoke full_options))))
   \<and> passes_before_kill [pass_new, pass_idle, pass_kill] = 2
   \<and> kill_checks (fst (slam_main SlamMax [pass_new, pass_idle, pass_kill]
                           (example_spoke full_options))) = [False, False, True]
   \<and> fst (slam_main SlamMax [pass_new, pass_idle, pass_kill] (example_spoke full_options))
       = [GotKillSignal False, Published (Fin 10), GotKillSignal False, GotKillSignal True]
   \<and> slam_main SlamMax ([pass_new, pass_idle, pass_kill] @ [pass_new, pass_new])
         (example_spoke full_options)
       = slam_main SlamMax [pass_new, pass_idle, pass_kill] (example_spoke full_options)
   \<and> snd (xhat_main [pass_idle, pass_new] (example_spoke full_options))
       = Running 3 (spoke_of (snd (xhat_main [pass_idle, pass_new] (example_spoke full_options))))
   \<and> kill_checks (fst (xhat_main [pass_idle, pass_new] (example_spoke full_options)))
       = [False, False]"
proof -
  let ?obs = "[pass_new, pass_idle, pass_kill]"
  let ?sp = "example_spoke full_options"
  have ex: "snd (slam_main SlamMax ?obs ?sp)
      = Exited 3 (spoke_of (snd (slam_main SlamMax ?obs ?sp)))"
    by code_simp
  have n: "passes_before_kill ?obs = 2"
    by (simp add: passes_before_kill_def pass_new_def pass_idle_def pass_kill_def)
  have tr: "fst (slam_main SlamMax ?obs ?sp)
      = [GotKillSignal False, Published (Fin 10), GotKillSignal False, GotKillSignal True]"
    by code_simp
  have run: "snd (xhat_main [pass_idle, pass_new] ?sp)
      = Running 3 (spoke_of (snd (xhat_main [pass_idle, pass_new] ?sp)))"
    by code_simp
  have "snd (slam_main SlamMax ?obs ?sp)
        = Exited 3 (spoke_of (snd (slam_main SlamMax ?obs ?sp))) \<longrightarrow>
      passes_before_kill ?obs < length ?obs
      \<and> kill_signal (?obs ! passes_before_kill ?obs)
      \<and> 3 = Suc (passes_before_kill ?obs)
      \<and> kill_checks (fst (slam_main SlamMax ?obs ?sp))
          = replicate (passes_before_kill ?obs) False @ [True]
      \<and> slam_main SlamMax (?obs @ [pass_new, pass_new]) ?sp = slam_main SlamMax ?obs ?sp"
    using kill_signal_ends_loop [of "slam_main SlamMax" SlamMax ?obs ?sp 3
      "spoke_of (snd (slam_main SlamMax ?obs ?sp))" "[pass_new, pass_new]"]
    by blast
  from this ex have
    a0: "kill_checks (fst (slam_main SlamMax ?obs ?sp))
          = replicate (passes_before_kill ?obs) False @ [True]"
    and b: "slam_main SlamMax (?obs @ [pass_new, pass_new]) ?sp = slam_main SlamMax ?obs ?sp"
    by blast+
  have a: "kill_checks (fst (slam_main SlamMax ?obs ?sp)) = [False, False, True]"
    unfolding a0 n by (simp add: numeral_2_eq_2)
  have "snd (xhat_main [pass_idle, pass_new] ?sp)
        = Running 3 (spoke_of (snd (xhat_main [pass_idle, pass_new] ?sp))) \<longrightarrow>
      (\<forall>ob\<in>set [pass_idle, pass_new]. \<not> kill_signal ob)
      \<and> 3 = Suc (length [pass_idle, pass_new])
      \<and> kill_checks (fst (xhat_main [pass_idle, pass_new] ?sp))
          = replicate (length [pass_idle, pass_new]) False"
    using kill_signal_ends_loop [of xhat_main SlamMax "[pass_idle, pass_new]" ?sp 3
      "spoke_of (snd (xhat_main [pass_idle, pass_new] ?sp))"]
    by blast
  from this run have
    c0: "kill_checks (fst (xhat_main [pass_idle, pass_new] ?sp))
          = replicate (length [pass_idle, pass_new]) False"
    by blast
  have c: "kill_checks (fst (xhat_main [pass_idle, pass_new] ?sp)) = [False, False]"
    unfolding c0 by (simp add: numeral_2_eq_2)
  show ?thesis
    by (intro conjI) (fact ex n a tr b run c)+
qed

section \<open>The aggregation in two levels\<close>

lemma foldl_map2_nth:
  "length r = n \<Longrightarrow> \<forall>x\<in>set rs. length x = n \<Longrightarrow>
   length (foldl (map2 f) r rs) = n \<and>
   (\<forall>j<n. foldl (map2 f) r rs ! j = foldl f (r ! j) (map (\<lambda>x. x ! j) rs))"
proof (induction rs arbitrary: r)
  case Nil
  then show ?case by simp
next
  case (Cons a rs)
  have l: "length (map2 f r a) = n" using Cons.prems by simp
  have "\<forall>x\<in>set rs. length x = n" using Cons.prems by simp
  from Cons.IH [OF l this] show ?case using Cons.prems by simp
qed

lemma foldl_max_Max: "foldl max (a::real) xs = Max (set (a # xs))"
proof -
  have "(\<lambda>x y. max y x) = (max :: real \<Rightarrow> real \<Rightarrow> real)"
    by (intro ext) (simp add: max.commute)
  then have "foldl max a xs = fold max xs a"
    by (simp add: foldl_conv_fold)
  then show ?thesis using Max.set_eq_fold [of a xs] by simp
qed

lemma foldl_min_Min: "foldl min (a::real) xs = Min (set (a # xs))"
proof -
  have "(\<lambda>x y. min y x) = (min :: real \<Rightarrow> real \<Rightarrow> real)"
    by (intro ext) (simp add: min.commute)
  then have "foldl min a xs = fold min xs a"
    by (simp add: foldl_conv_fold)
  then show ?thesis using Min.set_eq_fold [of a xs] by simp
qed

lemma foldl_mpi_op: "foldl (mpi_op kind) a xs = extremum kind (set (a # xs))"
  by (cases kind) (simp_all only: mpi_op.simps extremum.simps foldl_max_Max foldl_min_Min)

lemma reduce_rows:
  assumes "\<forall>x\<in>set (r # rs). length x = n"
  shows "foldl (map2 (mpi_op kind)) r rs
         = map (\<lambda>j. extremum kind ((\<lambda>x. x ! j) ` set (r # rs))) [0..<n]"
proof (rule nth_equalityI)
  have a: "length r = n" "\<forall>x\<in>set rs. length x = n" using assms by simp_all
  note f = foldl_map2_nth [OF a, of "mpi_op kind"]
  show "length (foldl (map2 (mpi_op kind)) r rs)
      = length (map (\<lambda>j. extremum kind ((\<lambda>x. x ! j) ` set (r # rs))) [0..<n])"
    using f by simp
  fix j assume "j < length (foldl (map2 (mpi_op kind)) r rs)"
  then have j: "j < n" using f by simp
  then have "foldl (map2 (mpi_op kind)) r rs ! j = foldl (mpi_op kind) (r ! j) (map (\<lambda>x. x ! j) rs)"
    using f by simp
  also have "\<dots> = extremum kind (set (r ! j # map (\<lambda>x. x ! j) rs))"
    by (rule foldl_mpi_op)
  finally show "foldl (map2 (mpi_op kind)) r rs ! j
      = map (\<lambda>j. extremum kind ((\<lambda>x. x ! j) ` set (r # rs))) [0..<n] ! j"
    using j by simp
qed

lemma numpy_op_mpi: "numpy_op kind m = reduce_axis0 (mpi_op kind) m"
  by (cases kind) simp_all

lemma numpy_op_columns:
  assumes "rows \<noteq> []" "\<forall>x\<in>set rows. length x = n"
  shows "numpy_op kind rows = Inr (map (\<lambda>j. extremum kind ((\<lambda>x. x ! j) ` set rows)) [0..<n])"
proof -
  obtain r rs where rows: "rows = r # rs" using assms(1) by (cases rows) auto
  show ?thesis
    using reduce_rows [of r rs n kind] assms(2)
    by (simp add: numpy_op_mpi reduce_axis0_def rows)
qed

lemma reshape_concat:
  "\<forall>x\<in>set rows. length x = n \<Longrightarrow> reshape (concat rows) (length rows) n = rows"
proof (induction rows rule: rev_induct)
  case Nil
  then show ?case by (simp add: reshape_def)
next
  case (snoc x xs)
  have len: "length (concat xs) = length xs * n"
    using snoc.prems by (induction xs) simp_all
  have ih: "map (\<lambda>i. take n (drop (i * n) (concat xs))) [0..<length xs] = xs"
    using snoc by (simp add: reshape_def)
  have eq: "map (\<lambda>i. take n (drop (i * n) (concat xs @ x))) [0..<length xs]
      = map (\<lambda>i. take n (drop (i * n) (concat xs))) [0..<length xs]"
  proof (rule map_cong [OF refl])
    fix i assume "i \<in> set [0..<length xs]"
    then have "i < length xs" by simp
    then have "Suc i \<le> length xs" by simp
    then have "Suc i * n \<le> length xs * n" by (rule mult_le_mono1)
    then have "i * n + n \<le> length (concat xs)" using len by simp
    then show "take n (drop (i * n) (concat xs @ x)) = take n (drop (i * n) (concat xs))"
      by simp
  qed
  have a: "map (\<lambda>i. take n (drop (i * n) (concat xs @ x))) [0..<length xs] = xs"
    by (simp only: eq ih)
  have b: "take n (drop (length xs * n) (concat xs @ x)) = x"
    using snoc.prems len by simp
  have "reshape (concat (xs @ [x])) (length (xs @ [x])) n
      = map (\<lambda>i. take n (drop (i * n) (concat xs @ x))) [0..<length xs]
        @ [take n (drop (length xs * n) (concat xs @ x))]"
    by (simp add: reshape_def)
  then show ?case
    by (simp only: a b)
qed

lemma extract_block:
  assumes "block \<noteq> []" "\<forall>x\<in>set block. length x = n"
  shows "extract_local_candidate_soln kind (length block) (concat block)
         = Inr (map (\<lambda>j. extremum kind ((\<lambda>x. x ! j) ` set block)) [0..<n])"
proof -
  have len: "length (concat block) = length block * n"
    using assms(2) by (induction block) simp_all
  have pos: "0 < length block" using assms(1) by simp
  then have d: "length (concat block) div length block = n"
    using len by simp
  show ?thesis
    using pos len
    by (simp add: extract_local_candidate_soln_def d Let_def reshape_concat [OF assms(2)]
        numpy_op_columns [OF assms] mult.commute)
qed


lemma collect_all_ok: "collect (map (\<lambda>p. Inr (g p)) ps) = Inr (map g ps)"
  by (induction ps) simp_all

lemma extremum_nested:
  assumes "ps \<noteq> []" "\<forall>p\<in>set ps. finite (F p) \<and> F p \<noteq> {}"
  shows "extremum kind ((\<lambda>p. extremum kind (F p)) ` set ps) = extremum kind (\<Union>p\<in>set ps. F p)"
  using assms
proof (induction ps rule: list_nonempty_induct)
  case (single p)
  then show ?case by (cases kind) simp_all
next
  case (cons p ps)
  let ?S = "(\<lambda>p. extremum kind (F p)) ` set ps"
  let ?U = "\<Union>p\<in>set ps. F p"
  have ih: "extremum kind ?S = extremum kind ?U" using cons by simp
  have fS: "finite ?S" "?S \<noteq> {}" using cons.hyps by simp_all
  have fU: "finite ?U" "?U \<noteq> {}" using cons.hyps cons.prems by auto
  have fp: "finite (F p)" "F p \<noteq> {}" using cons.prems by simp_all
  show ?case
  proof (cases kind)
    case SlamMax
    have "Max (insert (Max (F p)) ?S) = max (Max (F p)) (Max ?S)"
      using fS by (rule Max_insert)
    moreover have "Max (F p \<union> ?U) = max (Max (F p)) (Max ?U)"
      using fp fU by (intro Max.union)
    ultimately show ?thesis using ih SlamMax by simp
  next
    case SlamMin
    have "Min (insert (Min (F p)) ?S) = min (Min (F p)) (Min ?S)"
      using fS by (rule Min_insert)
    moreover have "Min (F p \<union> ?U) = min (Min (F p)) (Min ?U)"
      using fp fU by (intro Min.union)
    ultimately show ?thesis using ih SlamMin by simp
  qed
qed

lemma two_level_columns:
  assumes ne: "parts \<noteq> []"
    and blocks: "\<forall>p\<in>set parts. p \<noteq> []"
    and width: "\<forall>p\<in>set parts. \<forall>x\<in>set p. length x = n"
  shows "two_level_candidate kind parts
         = Inr (map (\<lambda>j. extremum kind ((\<lambda>x. x ! j) ` set (concat parts))) [0..<n])"
proof -
  let ?c = "\<lambda>p. map (\<lambda>j. extremum kind ((\<lambda>x. x ! j) ` set p)) [0..<n]"
  obtain own others where parts: "parts = own # others" using ne by (cases parts) auto
  have ex: "extract_local_candidate_soln kind (length p) (concat p) = Inr (?c p)"
    if "p \<in> set parts" for p
    using that blocks width by (intro extract_block) auto
  have own: "extract_local_candidate_soln kind (length own) (concat own) = Inr (?c own)"
    using ex parts by simp
  have "map (\<lambda>p. extract_local_candidate_soln kind (length p) (concat p)) others
      = map (\<lambda>p. Inr (?c p)) others"
    using ex parts by simp
  then have peers: "collect (map (\<lambda>p. extract_local_candidate_soln kind (length p) (concat p)) others)
      = Inr (map ?c others)"
    by (simp only: collect_all_ok)
  have lens: "\<forall>x\<in>set (?c own # map ?c others). length x = n" by simp
  then have ok: "list_all (\<lambda>p. length p = length (?c own)) (map ?c others)"
    by (simp add: list_all_iff)
  have red: "foldl (map2 (mpi_op kind)) (?c own) (map ?c others)
      = map (\<lambda>j. extremum kind ((\<lambda>x. x ! j) ` set (?c own # map ?c others))) [0..<n]"
    using lens by (rule reduce_rows)
  have col: "extremum kind ((\<lambda>x. x ! j) ` set (?c own # map ?c others))
      = extremum kind ((\<lambda>x. x ! j) ` set (concat parts))" if j: "j < n" for j
  proof -
    have "(\<lambda>x. x ! j) ` set (?c own # map ?c others)
        = (\<lambda>p. extremum kind ((\<lambda>x. x ! j) ` set p)) ` set parts"
      using j by (auto simp: parts image_iff)
    moreover have "extremum kind ((\<lambda>p. extremum kind ((\<lambda>x. x ! j) ` set p)) ` set parts)
        = extremum kind (\<Union>p\<in>set parts. (\<lambda>x. x ! j) ` set p)"
      using ne blocks by (intro extremum_nested) auto
    moreover have "(\<Union>p\<in>set parts. (\<lambda>x. x ! j) ` set p) = (\<lambda>x. x ! j) ` set (concat parts)"
      by auto
    ultimately show ?thesis by simp
  qed
  have "two_level_candidate kind parts = Inr (foldl (map2 (mpi_op kind)) (?c own) (map ?c others))"
    unfolding two_level_candidate_def parts using own peers ok
    by (simp add: Allreduce_def)
  also have "foldl (map2 (mpi_op kind)) (?c own) (map ?c others)
      = map (\<lambda>j. extremum kind ((\<lambda>x. x ! j) ` set (concat parts))) [0..<n]"
    unfolding red using col by simp
  finally show ?thesis .
qed

text \<open>
  Claim C4.  Take any matrix of nonants \<open>rows\<close> whose rows have one width, and any way of
  giving its rows to the ranks of a cylinder, each rank at least one row and in any order
  (\<open>parts\<close>, whose rows together are the rows of the matrix).  Then the reduction in two
  levels, \<open>numpy_op\<close> over each rank's rows and \<open>Allreduce\<close> with \<open>mpi_op\<close> over the ranks,
  gives what \<open>numpy_op\<close> gives on the whole matrix at once: for every column the extremum of
  the column.
\<close>

theorem aggregation_partition_invariant:
  assumes "parts \<noteq> []"
    and "\<forall>p\<in>set parts. p \<noteq> []"
    and "\<forall>p\<in>set parts. \<forall>x\<in>set p. length x = n"
    and "mset rows = mset (concat parts)"
  shows "two_level_candidate kind parts = numpy_op kind rows
         \<and> numpy_op kind rows
           = Inr (map (\<lambda>j. extremum kind ((\<lambda>x. x ! j) ` set rows)) [0..<n])"
proof -
  have s: "set rows = set (concat parts)"
    using assms(4) by (rule mset_eq_setD)
  from assms(1) obtain p where p: "p \<in> set parts" by (meson last_in_set)
  with assms(2) have "p \<noteq> []" by blast
  then obtain x where "x \<in> set p" by (meson last_in_set)
  then have "x \<in> set rows" using p s by auto
  then have rne: "rows \<noteq> []" by auto
  have rw: "\<forall>x\<in>set rows. length x = n" using s assms(3) by auto
  show ?thesis
    using two_level_columns [OF assms(1-3), of kind] numpy_op_columns [OF rne rw, of kind]
    by (simp add: s)
qed

text \<open>The rows \<open>[[1,5],[9,2],[3,3]]\<close> of the specification under three splits.\<close>

theorem aggregation_partition_invariant_witness:
  "[[[1, 5]], [[9, 2], [3, 3]]] \<noteq> ([] :: real list list list)
   \<and> list_all (\<lambda>p. p \<noteq> []) [[[1, 5]], [[9, 2], [3, 3 :: real]]]
   \<and> list_all (list_all (\<lambda>x. length x = 2)) [[[1, 5]], [[9, 2], [3, 3 :: real]]]
   \<and> mset [[1, 5], [9, 2], [3, 3 :: real]] = mset (concat [[[1, 5]], [[9, 2], [3, 3]]])
   \<and> two_level_candidate SlamMax [[[1, 5]], [[9, 2], [3, 3]]] = Inr [9, 5]
   \<and> two_level_candidate SlamMax [[[3, 3], [1, 5]], [[9, 2]]] = Inr [9, 5]
   \<and> two_level_candidate SlamMax [[[9, 2]], [[3, 3]], [[1, 5]]] = Inr [9, 5]
   \<and> numpy_op SlamMax [[1, 5], [9, 2], [3, 3]] = Inr [9, 5]"
  using aggregation_partition_invariant
      [of "[[[1, 5]], [[9, 2], [3, 3]]]" 2 "[[1, 5], [9, 2], [3, 3]]" SlamMax]
    aggregation_partition_invariant
      [of "[[[3, 3], [1, 5]], [[9, 2]]]" 2 "[[1, 5], [9, 2], [3, 3]]" SlamMax]
    aggregation_partition_invariant
      [of "[[[9, 2]], [[3, 3]], [[1, 5]]]" 2 "[[1, 5], [9, 2], [3, 3]]" SlamMax]
  by (simp add: reduce_axis0_def)

section \<open>Fixing the nonants\<close>



lemma fix_nonants_sound:
  "fix_nonants bias cand sur pers ix vs = Inr (vs', ups) \<Longrightarrow>
   length vs' = length vs \<and>
   (\<forall>i<length vs.
      (var_name (vs ! i) \<in> set sur \<longrightarrow> vs' ! i = vs ! i) \<and>
      (var_name (vs ! i) \<notin> set sur \<longrightarrow>
         ix + i < length cand \<and>
         (if is_binary (vs ! i) \<or> is_integer (vs ! i)
          then round_with_bias (cand ! (ix + i)) bias
          else Inr (cand ! (ix + i))) = Inr (var_value (vs' ! i)) \<and>
         vs' ! i = var_fix (var_value (vs' ! i)) (vs ! i))) \<and>
   ups = (if pers then filter (\<lambda>v. var_name v \<notin> set sur) vs' else [])"
proof (induction vs arbitrary: ix vs' ups)
  case Nil
  then show ?case by simp
next
  case (Cons v vs)
  show ?case
  proof (cases "var_name v \<in> set sur")
    case True
    with Cons.prems obtain ws where
      rec: "fix_nonants bias cand sur pers (Suc ix) vs = Inr (ws, ups)" and vs': "vs' = v # ws"
      by (auto split: sum.splits)
    from Cons.IH [OF rec] True show ?thesis
      by (auto simp: vs' nth_Cons split: nat.splits)
  next
    case False
    with Cons.prems obtain val ws us where
      inb: "ix < length cand"
      and val: "(if is_binary v \<or> is_integer v then round_with_bias (cand ! ix) bias
                 else Inr (cand ! ix)) = Inr val"
      and rec: "fix_nonants bias cand sur pers (Suc ix) vs = Inr (ws, us)"
      and vs': "vs' = var_fix val v # ws"
      and ups: "ups = (if pers then [var_fix val v] else []) @ us"
      by (auto split: sum.splits if_splits)
    have nm: "var_name (var_fix val v) = var_name v" "var_value (var_fix val v) = val"
      by (simp_all add: var_fix_def)
    from Cons.IH [OF rec] False inb val nm show ?thesis
      by (auto simp: vs' ups nth_Cons split: nat.splits)
  qed
qed

lemma fix_scenarios_sound:
  "fix_scenarios bias cand scens = Inr scens' \<Longrightarrow>
   length scens' = length scens \<and>
   (\<forall>k<length scens. \<exists>vs ups.
      fix_nonants bias cand (all_surrogate_nonants (scens ! k)) (is_persistent (scens ! k)) 0
        (nonant_indices (scens ! k)) = Inr (vs, ups) \<and>
      scens' ! k = (scens ! k)\<lparr>nonant_indices := vs,
                                solver_updates := solver_updates (scens ! k) @ ups\<rparr>)"
proof (induction scens arbitrary: scens')
  case Nil
  then show ?case by simp
next
  case (Cons s ss)
  from Cons.prems obtain vs ups ss' where
    one: "fix_nonants bias cand (all_surrogate_nonants s) (is_persistent s) 0 (nonant_indices s)
          = Inr (vs, ups)"
    and rec: "fix_scenarios bias cand ss = Inr ss'"
    and sc: "scens' = s\<lparr>nonant_indices := vs, solver_updates := solver_updates s @ ups\<rparr> # ss'"
    by (auto split: sum.splits)
  from Cons.IH [OF rec] one show ?case
    by (auto simp: sc nth_Cons split: nat.splits)
qed

text \<open>With a numeric bias and a candidate that has an entry for every nonant, the loops
  complete.\<close>

lemma fix_nonants_ok:
  "number_of bias = Some b \<Longrightarrow> ix + length vs \<le> length cand \<Longrightarrow>
   \<exists>r. fix_nonants bias cand sur pers ix vs = Inr r"
proof (induction vs arbitrary: ix)
  case Nil
  then show ?case by simp
next
  case (Cons v vs)
  from Cons.prems have "Suc ix + length vs \<le> length cand" by simp
  from Cons.IH [OF Cons.prems(1) this] obtain r where
    "fix_nonants bias cand sur pers (Suc ix) vs = Inr r" by blast
  then show ?case
    using Cons.prems by (cases r) (auto simp: round_with_bias_def)
qed

lemma fix_scenarios_ok:
  "number_of bias = Some b \<Longrightarrow> \<forall>s\<in>set scens. length (nonant_indices s) \<le> length cand \<Longrightarrow>
   \<exists>r. fix_scenarios bias cand scens = Inr r"
proof (induction scens)
  case Nil
  then show ?case by simp
next
  case (Cons s ss)
  then obtain r where r: "fix_scenarios bias cand ss = Inr r" by auto
  have "0 + length (nonant_indices s) \<le> length cand" using Cons.prems by simp
  from fix_nonants_ok [OF Cons.prems(1) this] obtain q where
    "fix_nonants bias cand (all_surrogate_nonants s) (is_persistent s) 0 (nonant_indices s) = Inr q"
    by blast
  with r show ?case by (cases q) auto
qed


lemma fix_nonants_nth:
  assumes "fix_nonants bias cand sur pers 0 vs = Inr (vs', ups)" "i < length vs"
  shows "var_name (vs ! i) \<in> set sur \<longrightarrow> vs' ! i = vs ! i"
    and "var_name (vs ! i) \<notin> set sur \<longrightarrow>
           i < length cand \<and>
           (if is_binary (vs ! i) \<or> is_integer (vs ! i)
            then round_with_bias (cand ! i) bias
            else Inr (cand ! i)) = Inr (var_value (vs' ! i)) \<and>
           vs' ! i = var_fix (var_value (vs' ! i)) (vs ! i)"
proof -
  from fix_nonants_sound [OF assms(1)]
  have "\<forall>i<length vs.
      (var_name (vs ! i) \<in> set sur \<longrightarrow> vs' ! i = vs ! i) \<and>
      (var_name (vs ! i) \<notin> set sur \<longrightarrow>
         0 + i < length cand \<and>
         (if is_binary (vs ! i) \<or> is_integer (vs ! i)
          then round_with_bias (cand ! (0 + i)) bias
          else Inr (cand ! (0 + i))) = Inr (var_value (vs' ! i)) \<and>
         vs' ! i = var_fix (var_value (vs' ! i)) (vs ! i))"
    by blast
  then have "(var_name (vs ! i) \<in> set sur \<longrightarrow> vs' ! i = vs ! i) \<and>
      (var_name (vs ! i) \<notin> set sur \<longrightarrow>
         0 + i < length cand \<and>
         (if is_binary (vs ! i) \<or> is_integer (vs ! i)
          then round_with_bias (cand ! (0 + i)) bias
          else Inr (cand ! (0 + i))) = Inr (var_value (vs' ! i)) \<and>
         vs' ! i = var_fix (var_value (vs' ! i)) (vs ! i))"
    using assms(2) by blast
  then show "var_name (vs ! i) \<in> set sur \<longrightarrow> vs' ! i = vs ! i"
    and "var_name (vs ! i) \<notin> set sur \<longrightarrow>
           i < length cand \<and>
           (if is_binary (vs ! i) \<or> is_integer (vs ! i)
            then round_with_bias (cand ! i) bias
            else Inr (cand ! i)) = Inr (var_value (vs' ! i)) \<and>
           vs' ! i = var_fix (var_value (vs' ! i)) (vs ! i)"
    unfolding add_0 by blast+
qed

lemma fix_nonants_rest:
  assumes "fix_nonants bias cand sur pers ix vs = Inr (vs', ups)"
  shows "length vs' = length vs"
    and "ups = (if pers then filter (\<lambda>v. var_name v \<notin> set sur) vs' else [])"
  using fix_nonants_sound [OF assms] by blast+

lemma fix_scenarios_nth:
  assumes "fix_scenarios bias cand scens = Inr scens'" "k < length scens"
  shows "\<exists>vs ups.
      fix_nonants bias cand (all_surrogate_nonants (scens ! k)) (is_persistent (scens ! k)) 0
        (nonant_indices (scens ! k)) = Inr (vs, ups) \<and>
      scens' ! k = (scens ! k)\<lparr>nonant_indices := vs,
                                solver_updates := solver_updates (scens ! k) @ ups\<rparr>"
    and "length scens' = length scens"
  using fix_scenarios_sound [OF assms(1)] assms(2) by blast+

lemma slam_pass_fixes:
  assumes "hub_nonants ob = Some nonants" "slam_pass kind ob sp = Inr (evs, sp')"
  shows "\<exists>local_candidate global_candidate.
      extract_local_candidate_soln kind (length (local_scenarios (opt sp))) nonants
        = Inr local_candidate
    \<and> Allreduce (mpi_op kind) local_candidate (peer_candidates ob) = Inr global_candidate
    \<and> fix_scenarios
        (dict_get (options (opt sp)) ''rounding_bias'' (PyFloat 0))
        global_candidate (local_scenarios (opt sp)) = Inr (local_scenarios (opt sp'))"
  using assms
  by (auto simp: slam_pass_def Let_def called_def spoke_update_if_improving_def
      split: sum.splits)



text \<open>
  Claim C6.  In a pass with new nonants that completes, the local candidate is extracted and
  reduced over the cylinder, and in every local scenario every nonant keeps its place: one
  that is a surrogate nonant is exactly as it was before and is not handed to the solver; any
  other is fixed at the entry of the global candidate with its own index (rounded with the
  bias if binary or integer) and, for a persistent solver, handed to \<open>update_var\<close>.
\<close>

theorem fix_skips_surrogates:
  assumes new: "hub_nonants ob = Some nonants"
    and pass: "slam_pass kind ob sp = Inr (evs, sp')"
    and k: "k < length (local_scenarios (opt sp))"
    and i: "i < length (nonant_indices (local_scenarios (opt sp) ! k))"
    and s: "s = local_scenarios (opt sp) ! k"
    and s': "s' = local_scenarios (opt sp') ! k"
    and v: "v = nonant_indices s ! i"
    and v': "v' = nonant_indices s' ! i"
    and bias: "rounding_bias =
        (dict_get (options (opt sp)) ''rounding_bias'' (PyFloat 0))"
  shows "\<exists>local_candidate global_candidate.
      extract_local_candidate_soln kind (length (local_scenarios (opt sp))) nonants
        = Inr local_candidate
    \<and> Allreduce (mpi_op kind) local_candidate (peer_candidates ob) = Inr global_candidate
    \<and> length (local_scenarios (opt sp')) = length (local_scenarios (opt sp))
    \<and> length (nonant_indices s') = length (nonant_indices s)
    \<and> all_surrogate_nonants s' = all_surrogate_nonants s
    \<and> (var_name v \<in> set (all_surrogate_nonants s) \<longrightarrow> v' = v)
    \<and> (var_name v \<notin> set (all_surrogate_nonants s) \<longrightarrow>
          i < length global_candidate
          \<and> (if is_binary v \<or> is_integer v
              then round_with_bias (global_candidate ! i) rounding_bias
              else Inr (global_candidate ! i)) = Inr (var_value v')
          \<and> v' = var_fix (var_value v') v)
    \<and> solver_updates s' = solver_updates s @
          (if is_persistent s
           then filter (\<lambda>u. var_name u \<notin> set (all_surrogate_nonants s)) (nonant_indices s')
           else [])"
proof -
  from slam_pass_fixes [OF new pass] obtain lc gc where
    lc: "extract_local_candidate_soln kind (length (local_scenarios (opt sp))) nonants = Inr lc"
    and gc: "Allreduce (mpi_op kind) lc (peer_candidates ob) = Inr gc"
    and fx: "fix_scenarios rounding_bias gc (local_scenarios (opt sp))
             = Inr (local_scenarios (opt sp'))"
    unfolding bias by blast
  from fix_scenarios_nth [OF fx k] obtain vs ups where
    fn: "fix_nonants rounding_bias gc (all_surrogate_nonants s) (is_persistent s) 0
              (nonant_indices s) = Inr (vs, ups)"
    and se: "s' = s\<lparr>nonant_indices := vs, solver_updates := solver_updates s @ ups\<rparr>"
    and len: "length (local_scenarios (opt sp')) = length (local_scenarios (opt sp))"
    unfolding s s' by blast
  have i': "i < length (nonant_indices s)" using i by (simp add: s)
  from fix_nonants_nth [OF fn i'] fix_nonants_rest [OF fn]
  have "length vs = length (nonant_indices s)"
    and "var_name v \<in> set (all_surrogate_nonants s) \<longrightarrow> vs ! i = v"
    and "var_name v \<notin> set (all_surrogate_nonants s) \<longrightarrow>
          i < length gc
          \<and> (if is_binary v \<or> is_integer v then round_with_bias (gc ! i) rounding_bias
              else Inr (gc ! i)) = Inr (var_value (vs ! i))
          \<and> vs ! i = var_fix (var_value (vs ! i)) v"
    and "ups = (if is_persistent s
                then filter (\<lambda>u. var_name u \<notin> set (all_surrogate_nonants s)) vs else [])"
    unfolding v by simp_all
  then show ?thesis
    using lc gc len by (simp add: se v')
qed

text \<open>In the small instance \<open>z\<close>, the third nonant, is a surrogate: it is left as it was,
  while \<open>x\<close> and \<open>y\<close> take the first and second entry of the candidate \<open>[2.3, 2.6, 7]\<close>.\<close>

theorem fix_skips_surrogates_witness:
  "\<exists>evs sp'.
     slam_pass SlamMax pass_new (example_spoke full_options) = Inr (evs, sp')
     \<and> hub_nonants pass_new = Some [23 / 10, 3 / 2, 7, 1, 5 / 2, 4]
     \<and> nonant_indices (local_scenarios (opt sp') ! 0) ! 2 = example_vars ! 2
     \<and> map (\<lambda>s. map (\<lambda>v. (var_name v, fixed v, var_value v)) (nonant_indices s))
           (local_scenarios (opt sp'))
       = [[(''x'', True, 3), (''y'', True, 26 / 10), (''z'', False, 0)],
          [(''x'', True, 3), (''y'', True, 26 / 10), (''z'', False, 0)]]
     \<and> map (\<lambda>s. map var_name (solver_updates s)) (local_scenarios (opt sp'))
       = [[''x'', ''y''], []]"
proof -
  let ?r = "slam_pass SlamMax pass_new (example_spoke full_options)"
  have r: "?r = Inr (fst (projr ?r), snd (projr ?r))"
    by code_simp
  have new: "hub_nonants pass_new = Some [23 / 10, 3 / 2, 7, 1, 5 / 2, 4]"
    by (simp add: pass_new_def)
  have k: "0 < length (local_scenarios (opt (example_spoke full_options)))"
    by (simp add: example_spoke_def example_optimizer_def example_scenarios_def)
  have i: "2 < length (nonant_indices (local_scenarios (opt (example_spoke full_options)) ! 0))"
    by (simp add: example_spoke_def example_optimizer_def example_scenarios_def example_vars_def)
  have sur: "var_name (nonant_indices (local_scenarios (opt (example_spoke full_options)) ! 0) ! 2)
      \<in> set (all_surrogate_nonants (local_scenarios (opt (example_spoke full_options)) ! 0))"
    by (simp add: example_spoke_def example_optimizer_def example_scenarios_def example_vars_def)
  have z: "nonant_indices (local_scenarios (opt (example_spoke full_options)) ! 0) ! 2
      = example_vars ! 2"
    by (simp add: example_spoke_def example_optimizer_def example_scenarios_def)
  have vals: "map (\<lambda>s. map (\<lambda>v. (var_name v, fixed v, var_value v)) (nonant_indices s))
           (local_scenarios (opt (snd (projr ?r))))
       = [[(''x'', True, 3), (''y'', True, 26 / 10), (''z'', False, 0)],
          [(''x'', True, 3), (''y'', True, 26 / 10), (''z'', False, 0)]]"
    by code_simp
  have ups: "map (\<lambda>s. map var_name (solver_updates s)) (local_scenarios (opt (snd (projr ?r))))
       = [[''x'', ''y''], []]"
    by code_simp
  from fix_skips_surrogates [OF new r k i refl refl refl refl refl] sur
  have "nonant_indices (local_scenarios (opt (snd (projr ?r))) ! 0) ! 2
      = nonant_indices (local_scenarios (opt (example_spoke full_options)) ! 0) ! 2"
    by blast
  with z have z': "nonant_indices (local_scenarios (opt (snd (projr ?r))) ! 0) ! 2 = example_vars ! 2"
    by simp
  show ?thesis
    by (intro exI [of _ "fst (projr ?r)"] exI [of _ "snd (projr ?r)"] conjI)
      (fact r new z' vals ups)+
qed

section \<open>Allocation\<close>

lemma replicate_last_update:
  "(replicate (Suc n) x)[n := y] = replicate n x @ [y]"
  by (induction n) simp_all

text \<open>
  Claim C7.  For a length that is not negative, \<open>_make_window\<close> and \<open>communicator_array\<close>
  return a buffer of exactly \<open>length + 1\<close> slots: \<open>length\<close> payload slots that all hold NaN,
  followed by the write counter, which is zero.  The window is requested with
  \<open>length + 1\<close> slots of the one width \<open>MPI.DOUBLE.size\<close>.
\<close>

theorem allocate_layout:
  assumes "0 \<le> len"
  shows "make_window strata_comm dsize len comm =
           Inr (\<lparr>win_size = dsize * (len + 1), disp_unit = dsize,
                  win_comm = (case comm of None \<Rightarrow> strata_comm | Some c \<Rightarrow> c)\<rparr>,
                replicate (nat len) NaN @ [Fin 0])
         \<and> communicator_array len = Inr (replicate (nat len) NaN @ [Fin 0])
         \<and> length (replicate (nat len) NaN @ [Fin 0 :: double]) = nat len + 1"
proof -
  from assms have n: "nat (len + 1) = Suc (nat len)" by simp
  have buf: "(replicate (nat (len + 1)) NaN)[length (replicate (nat (len + 1)) NaN) - 1 := Fin 0]
      = replicate (nat len) NaN @ [Fin 0]"
    unfolding n by (simp only: length_replicate diff_Suc_1 replicate_last_update)
  have ne: "replicate (nat (len + 1)) NaN \<noteq> []"
    unfolding n by simp
  from assms have pos: "\<not> len + 1 < 0" by simp
  have mw: "make_window strata_comm dsize len comm =
           Inr (\<lparr>win_size = dsize * (len + 1), disp_unit = dsize,
                  win_comm = (case comm of None \<Rightarrow> strata_comm | Some c \<Rightarrow> c)\<rparr>,
                replicate (nat len) NaN @ [Fin 0])"
    unfolding make_window_def Let_def using pos ne by (simp only: buf if_False)
  have ca: "communicator_array len = Inr (replicate (nat len) NaN @ [Fin 0])"
    unfolding communicator_array_def Let_def using pos ne by (simp only: buf if_False)
  show ?thesis
    using mw ca by simp
qed

theorem allocate_layout_witness:
  "(0::int) \<le> 3
   \<and> make_window (0::nat) 8 3 None =
       Inr (\<lparr>win_size = 32, disp_unit = 8, win_comm = 0\<rparr>, [NaN, NaN, NaN, Fin 0])
   \<and> communicator_array 3 = Inr [NaN, NaN, NaN, Fin 0]"
  using allocate_layout [of 3 "0::nat" 8 None] by (simp add: numeral_3_eq_3)

section \<open>Start-up checks\<close>

text \<open>
  Claim C8.  If the model is multistage or the optimizer is not an \<open>Xhat_Eval\<close>,
  \<open>slam_heur_prep\<close> raises a \<open>RuntimeError\<close> and \<open>main\<close> ends with it before the kill signal is
  tested for the first time, so before any pass of the loop.  Otherwise neither
  \<open>slam_heur_prep\<close> nor anything later in \<open>main\<close> raises a \<open>RuntimeError\<close>.
\<close>

theorem slam_preconditions_fatal:
  "(multistage (opt sp) \<or> \<not> is_Xhat_Eval (opt sp) \<longrightarrow>
      (\<exists>msg. slam_heur_prep sp = Inl (RuntimeError msg)
            \<and> slam_main kind obs sp = ([], Crashed (RuntimeError msg))))
   \<and> (\<not> multistage (opt sp) \<and> is_Xhat_Eval (opt sp) \<longrightarrow>
      (\<forall>msg. slam_heur_prep sp \<noteq> Inl (RuntimeError msg)
            \<and> snd (slam_main kind obs sp) \<noteq> Crashed (RuntimeError msg)))"
proof -
  have bad: "\<exists>msg. slam_heur_prep sp = Inl (RuntimeError msg)
            \<and> slam_main kind obs sp = ([], Crashed (RuntimeError msg))"
    if "multistage (opt sp) \<or> \<not> is_Xhat_Eval (opt sp)"
    using that by (auto simp: slam_heur_prep_def slam_main_def)
  have good: "slam_heur_prep sp \<noteq> Inl (RuntimeError msg)
            \<and> snd (slam_main kind obs sp) \<noteq> Crashed (RuntimeError msg)"
    if ok: "\<not> multistage (opt sp) \<and> is_Xhat_Eval (opt sp)" for msg
  proof -
    have p: "slam_heur_prep sp \<noteq> Inl (RuntimeError msg)"
      using slam_heur_prep_errors [of sp "RuntimeError msg"] ok by auto
    have "snd (slam_main kind obs sp) \<noteq> Crashed (RuntimeError msg)"
    proof
      assume "snd (slam_main kind obs sp) = Crashed (RuntimeError msg)"
      from slam_main_crash_cases [OF this] p obtain ob s where
        "slam_pass kind ob s = Inl (RuntimeError msg)" by blast
      from slam_pass_errors [OF this] show False by simp
    qed
    with p show ?thesis by simp
  qed
  from bad good show ?thesis by blast
qed

text \<open>The two failures and a run that passes both checks.\<close>

theorem slam_preconditions_fatal_witness:
  "multistage (opt multistage_spoke)
   \<and> slam_main SlamMax [pass_new, pass_kill] multistage_spoke
       = ([], Crashed (RuntimeError ''only supports two-stage models at this time.''))
   \<and> \<not> is_Xhat_Eval (opt unwrapped_spoke)
   \<and> slam_main SlamMin [pass_new, pass_kill] unwrapped_spoke
       = ([], Crashed (RuntimeError ''must be used with Xhat_Eval.''))
   \<and> \<not> multistage (opt (example_spoke full_options))
   \<and> is_Xhat_Eval (opt (example_spoke full_options))
   \<and> fst (slam_main SlamMax [pass_new, pass_kill] (example_spoke full_options))
       = [GotKillSignal False, Published (Fin 10), GotKillSignal True]"
proof -
  have a: "multistage (opt multistage_spoke)"
    by (simp add: multistage_spoke_def example_spoke_def)
  have b: "\<not> is_Xhat_Eval (opt unwrapped_spoke)"
    by (simp add: unwrapped_spoke_def example_spoke_def)
  have c: "\<not> multistage (opt (example_spoke full_options))"
    "is_Xhat_Eval (opt (example_spoke full_options))"
    by (simp_all add: example_spoke_def example_optimizer_def)
  have pa: "slam_heur_prep multistage_spoke
      = Inl (RuntimeError ''only supports two-stage models at this time.'')"
    by code_simp
  have pb: "slam_heur_prep unwrapped_spoke = Inl (RuntimeError ''must be used with Xhat_Eval.'')"
    by code_simp
  from slam_preconditions_fatal [of multistage_spoke SlamMax "[pass_new, pass_kill]"] a pa
  have ra: "slam_main SlamMax [pass_new, pass_kill] multistage_spoke
       = ([], Crashed (RuntimeError ''only supports two-stage models at this time.''))"
    by auto
  from slam_preconditions_fatal [of unwrapped_spoke SlamMin "[pass_new, pass_kill]"] b pb
  have rb: "slam_main SlamMin [pass_new, pass_kill] unwrapped_spoke
       = ([], Crashed (RuntimeError ''must be used with Xhat_Eval.''))"
    by auto
  have rc: "fst (slam_main SlamMax [pass_new, pass_kill] (example_spoke full_options))
       = [GotKillSignal False, Published (Fin 10), GotKillSignal True]"
    by code_simp
  from a b c ra rb rc show ?thesis by simp
qed




section \<open>Where the options are read\<close>





end
